theory Spec2Isabelle
  imports Complex_Main
begin

section \<open>Numbers and arrays\<close>

text \<open>
  The program computes with Python floats and numpy float64 arrays.  The embedding takes
  the finite values as real numbers (the rounding of the arithmetic, overflow and the sign
  of zero are not modelled) and adds the three special values that numpy produces where
  the program divides by zero: numpy does not raise there, it warns and yields an infinity
  or a NaN, which then travels through the rest of the arithmetic.  The one place where
  the program branches on computed positions, the comparison of the samples with the load
  positions of \<open>np.linspace\<close>, keeps the rounding of these positions as a parameter.
\<close>

datatype npfloat = Finite real | PosInf | NegInf | NaN

fun np_neg :: "npfloat \<Rightarrow> npfloat" where
  "np_neg (Finite a) = Finite (- a)"
| "np_neg PosInf = NegInf"
| "np_neg NegInf = PosInf"
| "np_neg NaN = NaN"

fun np_add :: "npfloat \<Rightarrow> npfloat \<Rightarrow> npfloat" where
  "np_add (Finite a) (Finite b) = Finite (a + b)"
| "np_add NaN y = NaN"
| "np_add x NaN = NaN"
| "np_add PosInf NegInf = NaN"
| "np_add NegInf PosInf = NaN"
| "np_add PosInf y = PosInf"
| "np_add x PosInf = PosInf"
| "np_add NegInf y = NegInf"
| "np_add x NegInf = NegInf"

definition np_sub :: "npfloat \<Rightarrow> npfloat \<Rightarrow> npfloat" where
  "np_sub x y = np_add x (np_neg y)"

fun np_mul :: "npfloat \<Rightarrow> npfloat \<Rightarrow> npfloat" where
  "np_mul (Finite a) (Finite b) = Finite (a * b)"
| "np_mul NaN y = NaN"
| "np_mul x NaN = NaN"
| "np_mul PosInf (Finite b) = (if 0 < b then PosInf else if b < 0 then NegInf else NaN)"
| "np_mul NegInf (Finite b) = (if 0 < b then NegInf else if b < 0 then PosInf else NaN)"
| "np_mul (Finite a) PosInf = (if 0 < a then PosInf else if a < 0 then NegInf else NaN)"
| "np_mul (Finite a) NegInf = (if 0 < a then NegInf else if a < 0 then PosInf else NaN)"
| "np_mul PosInf PosInf = PosInf"
| "np_mul PosInf NegInf = NegInf"
| "np_mul NegInf PosInf = NegInf"
| "np_mul NegInf NegInf = PosInf"

fun np_div :: "npfloat \<Rightarrow> npfloat \<Rightarrow> npfloat" where
  "np_div (Finite a) (Finite b) =
     (if b \<noteq> 0 then Finite (a / b)
      else if 0 < a then PosInf else if a < 0 then NegInf else NaN)"
| "np_div NaN y = NaN"
| "np_div x NaN = NaN"
| "np_div (Finite a) PosInf = Finite 0"
| "np_div (Finite a) NegInf = Finite 0"
| "np_div PosInf (Finite b) = (if 0 \<le> b then PosInf else NegInf)"
| "np_div NegInf (Finite b) = (if 0 \<le> b then NegInf else PosInf)"
| "np_div PosInf y = NaN"
| "np_div NegInf y = NaN"

fun np_abs :: "npfloat \<Rightarrow> npfloat" where
  "np_abs (Finite a) = Finite \<bar>a\<bar>"
| "np_abs PosInf = PosInf"
| "np_abs NegInf = PosInf"
| "np_abs NaN = NaN"

text \<open>\<open>np.maximum\<close> is the element-wise maximum that propagates NaN.\<close>

fun np_maximum :: "npfloat \<Rightarrow> npfloat \<Rightarrow> npfloat" where
  "np_maximum (Finite a) (Finite b) = Finite (max a b)"
| "np_maximum NaN y = NaN"
| "np_maximum x NaN = NaN"
| "np_maximum PosInf y = PosInf"
| "np_maximum x PosInf = PosInf"
| "np_maximum NegInf y = y"
| "np_maximum x NegInf = x"

text \<open>The comparison \<open><=\<close>: every comparison with NaN is false.\<close>

fun np_le :: "npfloat \<Rightarrow> npfloat \<Rightarrow> bool" where
  "np_le (Finite a) (Finite b) = (a \<le> b)"
| "np_le NaN y = False"
| "np_le x NaN = False"
| "np_le NegInf y = True"
| "np_le x PosInf = True"
| "np_le PosInf y = False"
| "np_le x NegInf = False"

text \<open>
  The two ways in which numpy raises in this program: \<open>np.linspace\<close> with a negative
  number of samples, and \<open>np.max\<close> of an empty array.  Both are a Python
  \<open>ValueError\<close>.
\<close>

datatype error = ValueError_samples int | ValueError_zero_size

text \<open>\<open>np.max\<close> of a one-dimensional array: NaN if any element is NaN.\<close>

fun np_max :: "npfloat list \<Rightarrow> error + npfloat" where
  "np_max [] = Inl ValueError_zero_size"
| "np_max (y # ys) = Inr (fold (\<lambda>z m. np_maximum m z) ys y)"

text \<open>
  \<open>np.linspace(start, stop, num)\<close> with the end point included returns \<open>num\<close> samples,
  the only one being \<open>start\<close> when \<open>num = 1\<close>.  The first sample is \<open>start\<close> and the last
  one is \<open>stop\<close>, exactly; each sample in between is the double that numpy computes for
  \<open>start + i * step\<close>, which need not be that real number.  The program compares sample
  positions with load positions, so the embedding does not fix these doubles: it takes
  them as a parameter \<open>rnd start stop num i\<close>, the \<open>i\<close>-th of \<open>num\<close> samples as numpy returns
  it.  \<open>exact_linspace\<close> is the value without rounding.
\<close>

type_synonym linspace_rounding = "real \<Rightarrow> real \<Rightarrow> nat \<Rightarrow> nat \<Rightarrow> real"

definition exact_linspace :: linspace_rounding where
  "exact_linspace start stop num i = start + real i * ((stop - start) / real (num - 1))"

definition linspace_samples :: "linspace_rounding \<Rightarrow> real \<Rightarrow> real \<Rightarrow> nat \<Rightarrow> real list" where
  "linspace_samples rnd start stop num =
     (if num = 1 then [start]
      else map (\<lambda>i. if i = 0 then start
                    else if i = num - 1 then stop
                    else rnd start stop num i) [0..<num])"

definition np_linspace ::
    "linspace_rounding \<Rightarrow> real \<Rightarrow> real \<Rightarrow> int \<Rightarrow> error + real list" where
  "np_linspace rnd start stop num =
     (if num < 0 then Inl (ValueError_samples num)
      else Inr (linspace_samples rnd start stop (nat num)))"

text \<open>Python's \<open>int(...)\<close> of a float truncates towards zero.\<close>

definition py_int :: "real \<Rightarrow> int" where
  "py_int r = (if 0 \<le> r then \<lfloor>r\<rfloor> else \<lceil>r\<rceil>)"

section \<open>Configuration and data\<close>

record props =
  mass :: real
  Wy :: real




section \<open>Mechanics\<close>

text \<open>Uniform load \<open>q\<close>: no division by an input, so every value is finite.\<close>

definition calculate_distributed_moment_shear ::
    "real \<Rightarrow> real \<Rightarrow> real list \<Rightarrow> real list \<times> real list" where
  "calculate_distributed_moment_shear L q x_vals =
     (let Ra = q * L / 2;
          V = map (\<lambda>x. Ra - q * x) x_vals;
          M = map (\<lambda>x. (q * x / 2) * (L - x)) x_vals
      in (M, V))"

text \<open>Triangular load: the divisions by \<open>2 * L\<close> and \<open>6 * L\<close> are numpy divisions.\<close>

definition calculate_triangular_moment_shear ::
    "real \<Rightarrow> real \<Rightarrow> real list \<Rightarrow> npfloat list \<times> npfloat list" where
  "calculate_triangular_moment_shear L q_max x_vals =
     (let Ra = (q_max * L) / 6;
          V = map (\<lambda>x. np_sub (Finite Ra)
                 (np_div (Finite (q_max * x ^ 2)) (Finite (2 * L)))) x_vals;
          M = map (\<lambda>x. np_sub (Finite (Ra * x))
                 (np_div (Finite (q_max * x ^ 3)) (Finite (6 * L)))) x_vals
      in (M, V))"

text \<open>
  One pass of the loop over the load positions: the reaction for the load at \<open>a\<close>, the
  two masked assignments into arrays of zeros, and the update of the running maxima.
\<close>

definition envelope_step ::
    "real \<Rightarrow> real \<Rightarrow> real list \<Rightarrow> real \<Rightarrow> npfloat list \<times> npfloat list
      \<Rightarrow> npfloat list \<times> npfloat list" where
  "envelope_step L Q x_vals a acc =
     (let Ra = np_div (Finite (Q * (L - a))) (Finite L);
          V_temp = map (\<lambda>x. if x \<le> a then Ra
                            else if x > a then np_sub Ra (Finite Q)
                            else Finite 0) x_vals;
          M_temp = map (\<lambda>x. if x \<le> a then np_mul Ra (Finite x)
                            else if x > a then
                              np_sub (np_mul Ra (Finite x)) (Finite (Q * (x - a)))
                            else Finite 0) x_vals;
          max_M = map2 np_maximum (fst acc) (map np_abs M_temp);
          max_V = map2 np_maximum (snd acc) (map np_abs V_temp)
      in (max_M, max_V))"

definition calculate_moving_load_envelope ::
    "linspace_rounding \<Rightarrow> real \<Rightarrow> real \<Rightarrow> real list
      \<Rightarrow> error + (npfloat list \<times> npfloat list)" where
  "calculate_moving_load_envelope rnd L Q x_vals =
     (let max_M = map (\<lambda>x. Finite 0) x_vals;
          max_V = map (\<lambda>x. Finite 0) x_vals
      in case np_linspace rnd 0 L (py_int (L * 10) + 1) of
           Inl e \<Rightarrow> Inl e
         | Inr q_positions \<Rightarrow>
             Inr (fold (envelope_step L Q x_vals) q_positions (max_M, max_V)))"

section \<open>Design search\<close>

record design_result =
  M_Ed :: npfloat
  V_Ed :: npfloat
  Sigma :: npfloat
  Util :: npfloat
  x_res :: "real list"
  M_array :: "npfloat list"
  V_array :: "npfloat list"

text \<open>
  The body of the loop over the catalog, up to the utilization: the three load cases on
  the sample grid \<open>x\<close>, the superposition with the partial safety factors, the maxima,
  the stress and the utilization.
\<close>

definition check_profile ::
    "linspace_rounding \<Rightarrow> props \<Rightarrow> real \<Rightarrow> real \<Rightarrow> real \<Rightarrow> real \<Rightarrow> real list
      \<Rightarrow> error + design_result" where
  "check_profile rnd p L delta_g Q_load fy x =
     (let g_k = mass p * 9.81 / 1000;
          (M_g, V_g) = calculate_distributed_moment_shear L g_k x;
          (M_dg, V_dg) = calculate_triangular_moment_shear L delta_g x
      in case calculate_moving_load_envelope rnd L Q_load x of
           Inl e \<Rightarrow> Inl e
         | Inr (M_Q, V_Q) \<Rightarrow>
            (let M_Ed_array =
                   map2 np_add
                     (map (np_mul (Finite 1.35)) (map2 np_add (map Finite M_g) M_dg))
                     (map (np_mul (Finite 1.5)) M_Q);
                 V_Ed_array =
                   map2 np_add
                     (map (np_mul (Finite 1.35))
                        (map2 np_add (map np_abs (map Finite V_g)) (map np_abs V_dg)))
                     (map (np_mul (Finite 1.5)) V_Q)
             in case np_max M_Ed_array of
                  Inl e \<Rightarrow> Inl e
                | Inr max_M_Ed \<Rightarrow>
                   (case np_max V_Ed_array of
                      Inl e \<Rightarrow> Inl e
                    | Inr max_V_Ed \<Rightarrow>
                       (let sigma_Ed = np_mul (np_div max_M_Ed (Finite (Wy p))) (Finite 1000);
                            sigma_Rd = fy;
                            utilization = np_div sigma_Ed (Finite sigma_Rd)
                        in Inr \<lparr>M_Ed = max_M_Ed, V_Ed = max_V_Ed, Sigma = sigma_Ed,
                                Util = utilization, x_res = x,
                                M_array = M_Ed_array, V_array = V_Ed_array\<rparr>))))"

text \<open>
  The two variables the loop leaves behind: \<open>best_profile\<close> (\<open>None\<close> at the start) and
  \<open>results\<close> (the empty dictionary at the start, here \<open>None\<close>).
\<close>

record search_state =
  best_profile :: "string option"
  results :: "design_result option"

text \<open>
  The loop over the catalog: the first profile with utilization \<open><= 1.0\<close> is stored
  and the loop is left by \<open>break\<close>; an exception of the body ends the run.
\<close>

fun profile_search ::
    "linspace_rounding \<Rightarrow> (string \<times> props) list \<Rightarrow> real \<Rightarrow> real \<Rightarrow> real \<Rightarrow> real \<Rightarrow> real list
      \<Rightarrow> error + search_state" where
  "profile_search rnd [] L delta_g Q_load fy x = Inr \<lparr>best_profile = None, results = None\<rparr>"
| "profile_search rnd ((profile_name, p) # rest) L delta_g Q_load fy x =
     (case check_profile rnd p L delta_g Q_load fy x of
        Inl e \<Rightarrow> Inl e
      | Inr r \<Rightarrow>
          if np_le (Util r) (Finite 1.0)
          then Inr \<lparr>best_profile = Some profile_name, results = Some r\<rparr>
          else profile_search rnd rest L delta_g Q_load fy x)"


text \<open>
  The report: \<open>if best_profile:\<close> shows the selected profile, and is false for \<open>None\<close>
  (and for an empty name), where the message "Kein Profil gefunden." is shown.
\<close>

datatype report = Gewaehltes_Profil string design_result | Kein_Profil_gefunden

fun report_of :: "search_state \<Rightarrow> report" where
  "report_of s =
     (case best_profile s of
        None \<Rightarrow> Kein_Profil_gefunden
      | Some n \<Rightarrow>
          if n = [] then Kein_Profil_gefunden
          else (case results s of
                  Some r \<Rightarrow> Gewaehltes_Profil n r
                | None \<Rightarrow> Kein_Profil_gefunden))"

section \<open>The formulas of the specification\<close>

text \<open>
  The closed forms as the specification words them, over the reals, to compare the
  program with.  A point load \<open>Q\<close> at position \<open>a\<close> on the span \<open>L\<close> has the reaction
  \<open>Ra = Q (L - a) / L\<close>; left of the load (\<open>x \<le> a\<close>) the shear is \<open>Ra\<close> and the moment
  \<open>Ra x\<close>, right of it the shear is \<open>Ra - Q\<close> and the moment \<open>Ra x - Q (x - a)\<close>.
\<close>

definition spec_point_V :: "real \<Rightarrow> real \<Rightarrow> real \<Rightarrow> real \<Rightarrow> real" where
  "spec_point_V L Q a x =
     (let Ra = Q * (L - a) / L in if x \<le> a then Ra else Ra - Q)"

definition spec_point_M :: "real \<Rightarrow> real \<Rightarrow> real \<Rightarrow> real \<Rightarrow> real" where
  "spec_point_M L Q a x =
     (let Ra = Q * (L - a) / L in if x \<le> a then Ra * x else Ra * x - Q * (x - a))"

text \<open>
  The sweep grid: 10 positions per unit length over \<open>[0, L]\<close>, both ends included, and
  never fewer than one position (the single position is the left end).  With \<open>n\<close> the
  whole part of \<open>10 L\<close>, the positions are \<open>0\<close>, the multiples \<open>j L / n\<close> as \<open>np.linspace\<close>
  returns them, and \<open>L\<close>.
\<close>

definition spec_sweep :: "linspace_rounding \<Rightarrow> real \<Rightarrow> real list" where
  "spec_sweep rnd L =
     (let n = nat \<lfloor>10 * L\<rfloor>
      in if n = 0 then [0]
         else map (\<lambda>j. if j = 0 then 0 else if j = n then L else rnd 0 L (Suc n) j)
                [0..<Suc n])"

text \<open>The envelope at a sample: the largest magnitude over all sweep positions.\<close>

definition spec_envelope_M :: "linspace_rounding \<Rightarrow> real \<Rightarrow> real \<Rightarrow> real \<Rightarrow> real" where
  "spec_envelope_M rnd L Q x = Max ((\<lambda>a. \<bar>spec_point_M L Q a x\<bar>) ` set (spec_sweep rnd L))"

definition spec_envelope_V :: "linspace_rounding \<Rightarrow> real \<Rightarrow> real \<Rightarrow> real \<Rightarrow> real" where
  "spec_envelope_V rnd L Q x = Max ((\<lambda>a. \<bar>spec_point_V L Q a x\<bar>) ` set (spec_sweep rnd L))"

text \<open>The closed forms of the uniform and of the triangular load.\<close>

definition spec_uniform_V :: "real \<Rightarrow> real \<Rightarrow> real \<Rightarrow> real" where
  "spec_uniform_V L q x = q * L / 2 - q * x"

definition spec_uniform_M :: "real \<Rightarrow> real \<Rightarrow> real \<Rightarrow> real" where
  "spec_uniform_M L q x = (q * x / 2) * (L - x)"

definition spec_triangular_V :: "real \<Rightarrow> real \<Rightarrow> real \<Rightarrow> real" where
  "spec_triangular_V L q_max x = q_max * L / 6 - q_max * x ^ 2 / (2 * L)"

definition spec_triangular_M :: "real \<Rightarrow> real \<Rightarrow> real \<Rightarrow> real" where
  "spec_triangular_M L q_max x = q_max * L / 6 * x - q_max * x ^ 3 / (6 * L)"

text \<open>
  The design quantities of one candidate section at a sample: self-weight from the mass
  per length, and the superposition with \<open>\<gamma>\<^sub>G = 1.35\<close> and \<open>\<gamma>\<^sub>Q = 1.5\<close>.
\<close>

definition spec_self_weight :: "props \<Rightarrow> real" where
  "spec_self_weight p = mass p * 9.81 / 1000"



text \<open>
  The same quantities for an arbitrary list of load positions \<open>as\<close>: the running maximum
  starts from zero, which is its value when there is no position at all.
\<close>

definition envelope_M_at :: "real list \<Rightarrow> real \<Rightarrow> real \<Rightarrow> real \<Rightarrow> real" where
  "envelope_M_at as L Q x = Max (insert 0 ((\<lambda>a. \<bar>spec_point_M L Q a x\<bar>) ` set as))"

definition envelope_V_at :: "real list \<Rightarrow> real \<Rightarrow> real \<Rightarrow> real \<Rightarrow> real" where
  "envelope_V_at as L Q x = Max (insert 0 ((\<lambda>a. \<bar>spec_point_V L Q a x\<bar>) ` set as))"

definition M_Ed_at :: "real list \<Rightarrow> props \<Rightarrow> real \<Rightarrow> real \<Rightarrow> real \<Rightarrow> real \<Rightarrow> real" where
  "M_Ed_at as p L delta_g Q x =
     1.35 * (spec_uniform_M L (spec_self_weight p) x + spec_triangular_M L delta_g x)
       + 1.5 * envelope_M_at as L Q x"

definition V_Ed_at :: "real list \<Rightarrow> props \<Rightarrow> real \<Rightarrow> real \<Rightarrow> real \<Rightarrow> real \<Rightarrow> real" where
  "V_Ed_at as p L delta_g Q x =
     1.35 * (\<bar>spec_uniform_V L (spec_self_weight p) x\<bar> + \<bar>spec_triangular_V L delta_g x\<bar>)
       + 1.5 * envelope_V_at as L Q x"

section \<open>The program on finite values\<close>

text \<open>
  Where the span is not zero every division of the evaluators is by a non-zero number, and
  the arrays hold the real numbers of the closed forms.
\<close>

lemma Max_insert_max:
  "finite S \<Longrightarrow> Max (insert (max m z) S) = Max (insert (m::real) (insert z S))"
  by (cases "S = {}") (simp_all add: max.assoc)

lemma fold_np_maximum_Finite:
  "fold (\<lambda>z m. np_maximum m z) (map Finite zs) (Finite m) = Finite (Max (insert m (set zs)))"
proof (induction zs arbitrary: m)
  case Nil
  show ?case by simp
next
  case (Cons z zs)
  show ?case by (simp add: Cons.IH Max_insert_max)
qed

lemma np_max_Finite:
  "ys \<noteq> [] \<Longrightarrow> np_max (map Finite ys) = Inr (Finite (Max (set ys)))"
  by (cases ys) (simp_all add: fold_np_maximum_Finite)

lemma distributed_spec:
  "calculate_distributed_moment_shear L q xs =
     (map (spec_uniform_M L q) xs, map (spec_uniform_V L q) xs)"
  by (simp add: calculate_distributed_moment_shear_def spec_uniform_M_def spec_uniform_V_def)

lemma triangular_finite:
  "L \<noteq> 0 \<Longrightarrow> calculate_triangular_moment_shear L q xs =
     (map (\<lambda>x. Finite (spec_triangular_M L q x)) xs,
      map (\<lambda>x. Finite (spec_triangular_V L q x)) xs)"
  by (simp add: calculate_triangular_moment_shear_def np_sub_def
      spec_triangular_M_def spec_triangular_V_def)

lemma step_finite:
  assumes "L \<noteq> 0"
  shows "envelope_step L Q xs a (map (\<lambda>x. Finite (m x)) xs, map (\<lambda>x. Finite (v x)) xs) =
     (map (\<lambda>x. Finite (max (m x) \<bar>spec_point_M L Q a x\<bar>)) xs,
      map (\<lambda>x. Finite (max (v x) \<bar>spec_point_V L Q a x\<bar>)) xs)"
  using assms
  by (simp add: envelope_step_def np_sub_def spec_point_M_def spec_point_V_def zip_map1 zip_map2
      zip_same_conv_map Let_def o_def)

lemma fold_step_finite:
  assumes "L \<noteq> 0"
  shows "fold (envelope_step L Q xs) as
       (map (\<lambda>x. Finite (m x)) xs, map (\<lambda>x. Finite (v x)) xs) =
     (map (\<lambda>x. Finite (fold (\<lambda>a m. max m \<bar>spec_point_M L Q a x\<bar>) as (m x))) xs,
      map (\<lambda>x. Finite (fold (\<lambda>a v. max v \<bar>spec_point_V L Q a x\<bar>) as (v x))) xs)"
proof (induction as arbitrary: m v)
  case Nil
  show ?case by simp
next
  case (Cons a as)
  let ?m = "\<lambda>x. max (m x) \<bar>spec_point_M L Q a x\<bar>"
  let ?v = "\<lambda>x. max (v x) \<bar>spec_point_V L Q a x\<bar>"
  have "fold (envelope_step L Q xs) (a # as)
          (map (\<lambda>x. Finite (m x)) xs, map (\<lambda>x. Finite (v x)) xs) =
        fold (envelope_step L Q xs) as
          (map (\<lambda>x. Finite (?m x)) xs, map (\<lambda>x. Finite (?v x)) xs)"
    by (simp only: fold_simps o_apply step_finite[OF assms])
  also have "\<dots> =
     (map (\<lambda>x. Finite (fold (\<lambda>a m. max m \<bar>spec_point_M L Q a x\<bar>) as (?m x))) xs,
      map (\<lambda>x. Finite (fold (\<lambda>a v. max v \<bar>spec_point_V L Q a x\<bar>) as (?v x))) xs)"
    by (rule Cons.IH[of ?m ?v])
  finally show ?case by simp
qed

lemma fold_max_Max:
  "fold (\<lambda>a m. max m (f a)) as (m0::real) = Max (insert m0 (f ` set as))"
proof (induction as arbitrary: m0)
  case Nil
  show ?case by simp
next
  case (Cons a as)
  show ?case by (simp add: Cons.IH Max_insert_max)
qed

lemma envelope_at:
  assumes "L \<noteq> 0" and "np_linspace rnd 0 L (py_int (L * 10) + 1) = Inr as"
  shows "calculate_moving_load_envelope rnd L Q xs =
     Inr (map (\<lambda>x. Finite (envelope_M_at as L Q x)) xs,
          map (\<lambda>x. Finite (envelope_V_at as L Q x)) xs)"
proof -
  have "calculate_moving_load_envelope rnd L Q xs =
        Inr (fold (envelope_step L Q xs) as
             (map (\<lambda>x. Finite 0) xs, map (\<lambda>x. Finite 0) xs))"
    unfolding calculate_moving_load_envelope_def Let_def assms(2) by simp
  also have "fold (envelope_step L Q xs) as
             (map (\<lambda>x. Finite 0) xs, map (\<lambda>x. Finite 0) xs) =
     (map (\<lambda>x. Finite (fold (\<lambda>a m. max m \<bar>spec_point_M L Q a x\<bar>) as 0)) xs,
      map (\<lambda>x. Finite (fold (\<lambda>a v. max v \<bar>spec_point_V L Q a x\<bar>) as 0)) xs)"
    by (rule fold_step_finite[OF assms(1), of Q xs as "\<lambda>x. 0" "\<lambda>x. 0"])
  finally show ?thesis
    unfolding fold_max_Max envelope_M_at_def envelope_V_at_def .
qed

lemma Max_insert_zero_abs:
  assumes "as \<noteq> []"
  shows "Max (insert 0 ((\<lambda>a. \<bar>f a :: real\<bar>) ` set as)) = Max ((\<lambda>a. \<bar>f a\<bar>) ` set as)"
proof -
  obtain a where a: "a \<in> set as" using assms by (cases as) auto
  have fin: "finite ((\<lambda>a. \<bar>f a\<bar>) ` set as)" by simp
  have ne: "(\<lambda>a. \<bar>f a\<bar>) ` set as \<noteq> {}" using a by auto
  have "0 \<le> \<bar>f a\<bar>" by simp
  also have "\<bar>f a\<bar> \<le> Max ((\<lambda>a. \<bar>f a\<bar>) ` set as)" using a by (intro Max_ge) auto
  finally have "max 0 (Max ((\<lambda>a. \<bar>f a\<bar>) ` set as)) = Max ((\<lambda>a. \<bar>f a\<bar>) ` set as)" by simp
  then show ?thesis using fin ne by simp
qed

lemma spec_sweep_nonempty: "spec_sweep rnd L \<noteq> []"
  by (simp add: spec_sweep_def Let_def)

lemma spec_envelope_at:
  "spec_envelope_M rnd L Q x = envelope_M_at (spec_sweep rnd L) L Q x"
  "spec_envelope_V rnd L Q x = envelope_V_at (spec_sweep rnd L) L Q x"
  unfolding spec_envelope_M_def spec_envelope_V_def envelope_M_at_def envelope_V_at_def
  by (simp_all only: Max_insert_zero_abs[OF spec_sweep_nonempty])


lemma linspace_exact:
  "linspace_samples exact_linspace start stop num =
     (if num = 1 then [start]
      else map (\<lambda>i. start + real i * ((stop - start) / real (num - 1))) [0..<num])"
proof -
  have "(if i = 0 then start else if i = num - 1 then stop else exact_linspace start stop num i)
        = start + real i * ((stop - start) / real (num - 1))"
    if "i < num" "num \<noteq> 1" for i
  proof -
    have "1 < num" using that by simp
    then have "real (num - 1) \<noteq> 0" by simp
    then have "start + real (num - 1) * ((stop - start) / real (num - 1)) = stop" by simp
    then show ?thesis by (simp add: exact_linspace_def)
  qed
  then have "num \<noteq> 1 \<Longrightarrow>
      map (\<lambda>i. if i = 0 then start else if i = num - 1 then stop
                else exact_linspace start stop num i) [0..<num] =
      map (\<lambda>i. start + real i * ((stop - start) / real (num - 1))) [0..<num]"
    by (intro map_cong) simp_all
  then show ?thesis unfolding linspace_samples_def by simp
qed

lemma spec_sweep_exact:
  "spec_sweep exact_linspace L =
     (if nat \<lfloor>10 * L\<rfloor> = 0 then [0]
      else map (\<lambda>j. real j * L / real (nat \<lfloor>10 * L\<rfloor>)) [0..<Suc (nat \<lfloor>10 * L\<rfloor>)])"
proof -
  define n where "n = nat \<lfloor>10 * L\<rfloor>"
  have "map (\<lambda>j. if j = 0 then 0 else if j = n then L else exact_linspace 0 L (Suc n) j)
        [0..<Suc n] = map (\<lambda>j. real j * L / real n) [0..<Suc n]" if n: "n \<noteq> 0"
  proof (rule map_cong[OF refl])
    fix j assume "j \<in> set [0..<Suc n]"
    show "(if j = 0 then 0 else if j = n then L else exact_linspace 0 L (Suc n) j)
          = real j * L / real n"
      using n by (simp add: exact_linspace_def)
  qed
  then show ?thesis unfolding spec_sweep_def Let_def n_def[symmetric] by simp
qed

lemma sweep_eq:
  assumes "0 < L"
  shows "np_linspace rnd 0 L (py_int (L * 10) + 1) = Inr (spec_sweep rnd L)"
proof -
  have fl: "0 \<le> \<lfloor>L * 10\<rfloor>" using assms by simp
  have pi: "py_int (L * 10) = \<lfloor>L * 10\<rfloor>" using assms by (simp add: py_int_def)
  have nn: "nat (\<lfloor>L * 10\<rfloor> + 1) = Suc (nat \<lfloor>10 * L\<rfloor>)"
    using fl by (simp add: mult.commute nat_add_distrib)
  have "linspace_samples rnd 0 L (Suc n) =
        (if n = 0 then [0]
         else map (\<lambda>j. if j = 0 then 0 else if j = n then L else rnd 0 L (Suc n) j)
                [0..<Suc n])" for n
    unfolding linspace_samples_def by simp
  then have "linspace_samples rnd 0 L (Suc (nat \<lfloor>10 * L\<rfloor>)) = spec_sweep rnd L"
    unfolding spec_sweep_def Let_def by simp
  moreover have "\<not> (\<lfloor>L * 10\<rfloor> + 1 < 0)" using fl by linarith
  ultimately show ?thesis
    unfolding np_linspace_def pi nn by (simp only: if_False)
qed

lemma envelope_finite:
  assumes "0 < L"
  shows "calculate_moving_load_envelope rnd L Q xs =
     Inr (map (\<lambda>x. Finite (spec_envelope_M rnd L Q x)) xs,
          map (\<lambda>x. Finite (spec_envelope_V rnd L Q x)) xs)"
proof -
  have L: "L \<noteq> 0" using assms by simp
  show ?thesis
    unfolding spec_envelope_at by (rule envelope_at[OF L sweep_eq[OF assms]])
qed

lemma check_profile_at:
  assumes "L \<noteq> 0" and "np_linspace rnd 0 L (py_int (L * 10) + 1) = Inr as" and "x \<noteq> []"
  shows "check_profile rnd p L delta_g Q fy x =
     Inr \<lparr>M_Ed = Finite (Max (set (map (M_Ed_at as p L delta_g Q) x))),
          V_Ed = Finite (Max (set (map (V_Ed_at as p L delta_g Q) x))),
          Sigma = np_mul (np_div (Finite (Max (set (map (M_Ed_at as p L delta_g Q) x))))
                    (Finite (Wy p))) (Finite 1000),
          Util = np_div (np_mul (np_div (Finite (Max (set (map (M_Ed_at as p L delta_g Q) x))))
                    (Finite (Wy p))) (Finite 1000)) (Finite fy),
          x_res = x,
          M_array = map Finite (map (M_Ed_at as p L delta_g Q) x),
          V_array = map Finite (map (V_Ed_at as p L delta_g Q) x)\<rparr>"
proof -
  have M: "map2 np_add
             (map (np_mul (Finite 1.35))
                (map2 np_add (map Finite (map (spec_uniform_M L (spec_self_weight p)) x))
                   (map (\<lambda>x. Finite (spec_triangular_M L delta_g x)) x)))
             (map (np_mul (Finite 1.5)) (map (\<lambda>x. Finite (envelope_M_at as L Q x)) x)) =
           map Finite (map (M_Ed_at as p L delta_g Q) x)"
    by (simp add: zip_map1 zip_map2 zip_same_conv_map o_def M_Ed_at_def)
  have V: "map2 np_add
             (map (np_mul (Finite 1.35))
                (map2 np_add
                   (map np_abs (map Finite (map (spec_uniform_V L (spec_self_weight p)) x)))
                   (map np_abs (map (\<lambda>x. Finite (spec_triangular_V L delta_g x)) x))))
             (map (np_mul (Finite 1.5)) (map (\<lambda>x. Finite (envelope_V_at as L Q x)) x)) =
           map Finite (map (V_Ed_at as p L delta_g Q) x)"
    by (simp add: zip_map1 zip_map2 zip_same_conv_map o_def V_Ed_at_def)
  have ne: "map (M_Ed_at as p L delta_g Q) x \<noteq> []" "map (V_Ed_at as p L delta_g Q) x \<noteq> []"
    using assms(3) by simp_all
  show ?thesis
    unfolding check_profile_def Let_def distributed_spec triangular_finite[OF assms(1)]
      envelope_at[OF assms(1,2)] spec_self_weight_def[symmetric]
    by (simp only: prod.case sum.case M V np_max_Finite[OF ne(1)] np_max_Finite[OF ne(2)])
qed

section \<open>The search loop\<close>

lemma profile_search_first:
  assumes "\<forall>(n, q) \<in> set pre. \<exists>r'. check_profile rnd q L dg Q fy x = Inr r' \<and> \<not> np_le (Util r') (Finite 1)"
    and "check_profile rnd p L dg Q fy x = Inr r" and "np_le (Util r) (Finite 1)"
  shows "profile_search rnd (pre @ (name, p) # post) L dg Q fy x =
           Inr \<lparr>best_profile = Some name, results = Some r\<rparr>"
  using assms
proof (induction pre)
  case Nil
  then show ?case by simp
next
  case (Cons e pre)
  obtain n q where e: "e = (n, q)" by (cases e)
  from Cons.prems(1) obtain r' where
    "check_profile rnd q L dg Q fy x = Inr r'" "\<not> np_le (Util r') (Finite 1)"
    unfolding e by auto
  moreover have "profile_search rnd (pre @ (name, p) # post) L dg Q fy x =
           Inr \<lparr>best_profile = Some name, results = Some r\<rparr>"
    using Cons by simp
  ultimately show ?case unfolding e by simp
qed

lemma profile_search_selected:
  assumes "profile_search rnd catalog L dg Q fy x = Inr s" and "best_profile s = Some name"
  shows "\<exists>pre p post r. catalog = pre @ (name, p) # post
           \<and> check_profile rnd p L dg Q fy x = Inr r \<and> np_le (Util r) (Finite 1)
           \<and> results s = Some r
           \<and> (\<forall>(n, q) \<in> set pre. \<exists>r'. check_profile rnd q L dg Q fy x = Inr r'
                  \<and> \<not> np_le (Util r') (Finite 1))"
  using assms
proof (induction catalog)
  case Nil
  then show ?case by auto
next
  case (Cons e catalog)
  obtain n q where e: "e = (n, q)" by (cases e)
  have "\<exists>r'. check_profile rnd q L dg Q fy x = Inr r'"
  proof (cases "check_profile rnd q L dg Q fy x")
    case (Inl err)
    then show ?thesis using Cons.prems(1) unfolding e by simp
  next
    case (Inr r')
    then show ?thesis by simp
  qed
  then obtain r' where r': "check_profile rnd q L dg Q fy x = Inr r'" ..
  show ?case
  proof (cases "np_le (Util r') (Finite 1)")
    case True
    then have "s = \<lparr>best_profile = Some n, results = Some r'\<rparr>"
      using Cons.prems(1) r' unfolding e by simp
    then have "n = name" "results s = Some r'" using Cons.prems(2) by simp_all
    then have "e # catalog = [] @ (name, q) # catalog \<and> check_profile rnd q L dg Q fy x = Inr r'
        \<and> np_le (Util r') (Finite 1) \<and> results s = Some r'
        \<and> (\<forall>(n, q) \<in> set []. \<exists>r'. check_profile rnd q L dg Q fy x = Inr r'
                  \<and> \<not> np_le (Util r') (Finite 1))"
      using r' True e by simp
    then show ?thesis by (intro exI)
  next
    case False
    then have "profile_search rnd catalog L dg Q fy x = Inr s"
      using Cons.prems(1) r' unfolding e by simp
    from Cons.IH[OF this Cons.prems(2)] obtain pre p post r where
      h: "catalog = pre @ (name, p) # post" "check_profile rnd p L dg Q fy x = Inr r"
         "np_le (Util r) (Finite 1)" "results s = Some r"
         "\<forall>(n, q) \<in> set pre. \<exists>r'. check_profile rnd q L dg Q fy x = Inr r'
                  \<and> \<not> np_le (Util r') (Finite 1)"
      by blast
    have "e # catalog = (e # pre) @ (name, p) # post" using h(1) by simp
    moreover have "\<forall>(n, q) \<in> set (e # pre). \<exists>r'. check_profile rnd q L dg Q fy x = Inr r'
                  \<and> \<not> np_le (Util r') (Finite 1)"
      using h(5) r' False e by simp
    ultimately have "e # catalog = (e # pre) @ (name, p) # post
        \<and> check_profile rnd p L dg Q fy x = Inr r \<and> np_le (Util r) (Finite 1)
        \<and> results s = Some r
        \<and> (\<forall>(n, q) \<in> set (e # pre). \<exists>r'. check_profile rnd q L dg Q fy x = Inr r'
                  \<and> \<not> np_le (Util r') (Finite 1))"
      using h(2,3,4) by (intro conjI)
    then show ?thesis by (intro exI)
  qed
qed

lemma profile_search_none:
  assumes "\<forall>(n, p) \<in> set catalog. \<exists>r. check_profile rnd p L dg Q fy x = Inr r
              \<and> \<not> np_le (Util r) (Finite 1)"
  shows "profile_search rnd catalog L dg Q fy x = Inr \<lparr>best_profile = None, results = None\<rparr>"
  using assms
proof (induction catalog)
  case Nil
  show ?case by simp
next
  case (Cons e catalog)
  obtain n q where e: "e = (n, q)" by (cases e)
  from Cons.prems obtain r' where
    "check_profile rnd q L dg Q fy x = Inr r'" "\<not> np_le (Util r') (Finite 1)"
    unfolding e by auto
  moreover have "profile_search rnd catalog L dg Q fy x = Inr \<lparr>best_profile = None, results = None\<rparr>"
    using Cons by simp
  ultimately show ?case unfolding e by simp
qed

subsection \<open>The span zero, errors, and finite utilizations\<close>

text \<open>
  With \<open>L = 0\<close> the reaction of the moving load is \<open>0 / 0\<close>, a NaN, and the NaN reaches the
  utilization of every section; the comparison with \<open>1.0\<close> is then false.
\<close>

lemma np_add_NaN_right: "np_add y NaN = NaN"
  by (cases y) simp_all

lemma linspace_zero: "np_linspace rnd 0 0 (py_int (0 * 10) + 1) = Inr [0]"
  by (simp add: np_linspace_def py_int_def linspace_samples_def)

lemma envelope_zero_span:
  "calculate_moving_load_envelope rnd 0 Q xs = Inr (map (\<lambda>x. NaN) xs, map (\<lambda>x. NaN) xs)"
proof -
  have "envelope_step 0 Q xs 0 (map (\<lambda>x. Finite 0) xs, map (\<lambda>x. Finite 0) xs) =
        (map (\<lambda>x. NaN) xs, map (\<lambda>x. NaN) xs)"
    by (simp add: envelope_step_def np_sub_def zip_map1 zip_map2 zip_same_conv_map o_def)
  then show ?thesis
    unfolding calculate_moving_load_envelope_def Let_def linspace_zero by simp
qed

lemma np_max_all_NaN:
  "xs \<noteq> [] \<Longrightarrow> np_max (map (\<lambda>x. NaN) xs) = Inr NaN"
proof -
  have "fold (\<lambda>z m. np_maximum m z) (map (\<lambda>x. NaN) ys) NaN = NaN" for ys :: "'a list"
    by (induction ys) simp_all
  then show "xs \<noteq> [] \<Longrightarrow> ?thesis" by (cases xs) simp_all
qed

lemma check_profile_empty: "check_profile rnd p L dg Q fy [] \<noteq> Inr r"
  by (simp add: check_profile_def calculate_distributed_moment_shear_def
      calculate_triangular_moment_shear_def split: sum.splits prod.splits)

lemma check_profile_zero_span_value:
  assumes "x \<noteq> []"
  shows "check_profile rnd p 0 dg Q fy x =
     Inr \<lparr>M_Ed = NaN, V_Ed = NaN, Sigma = NaN, Util = NaN, x_res = x,
          M_array = map (\<lambda>x. NaN) x, V_array = map (\<lambda>x. NaN) x\<rparr>"
proof -
  define Mt where "Mt = (\<lambda>x. np_sub (Finite (dg * 0 / 6 * x))
                 (np_div (Finite (dg * x ^ 3)) (Finite (6 * 0))))"
  define Vt where "Vt = (\<lambda>x. np_sub (Finite (dg * 0 / 6))
                 (np_div (Finite (dg * x ^ 2)) (Finite (2 * 0))))"
  have t: "calculate_triangular_moment_shear 0 dg x = (map Mt x, map Vt x)"
    unfolding calculate_triangular_moment_shear_def Let_def Mt_def Vt_def ..
  have M: "map2 np_add
             (map (np_mul (Finite 1.35))
                (map2 np_add (map Finite (map (spec_uniform_M 0 (spec_self_weight p)) x))
                   (map Mt x)))
             (map (np_mul (Finite 1.5)) (map (\<lambda>x. NaN) x)) = map (\<lambda>x. NaN) x"
    by (simp add: zip_map1 zip_map2 zip_same_conv_map o_def np_add_NaN_right)
  have V: "map2 np_add
             (map (np_mul (Finite 1.35))
                (map2 np_add
                   (map np_abs (map Finite (map (spec_uniform_V 0 (spec_self_weight p)) x)))
                   (map np_abs (map Vt x))))
             (map (np_mul (Finite 1.5)) (map (\<lambda>x. NaN) x)) = map (\<lambda>x. NaN) x"
    by (simp add: zip_map1 zip_map2 zip_same_conv_map o_def np_add_NaN_right)
  show ?thesis
    unfolding check_profile_def Let_def distributed_spec t envelope_zero_span
      spec_self_weight_def[symmetric]
    by (simp only: prod.case sum.case M V np_max_all_NaN[OF assms] np_div.simps np_mul.simps)
qed

lemma check_profile_zero_span:
  assumes "check_profile rnd p 0 dg Q fy x = Inr r"
  shows "Util r = NaN"
proof -
  have "x \<noteq> []" using assms check_profile_empty by blast
  from check_profile_zero_span_value[OF this, where p = p and dg = dg and Q = Q and fy = fy
      and rnd = rnd]
  show ?thesis using assms by simp
qed

lemma check_profile_error:
  assumes "np_linspace rnd 0 L (py_int (L * 10) + 1) = Inl e"
  shows "check_profile rnd p L dg Q fy x = Inl e"
proof -
  have "calculate_moving_load_envelope rnd L Q x = Inl e"
    unfolding calculate_moving_load_envelope_def Let_def assms by simp
  then show ?thesis
    unfolding check_profile_def Let_def by (simp split: prod.splits)
qed

lemma check_profile_Util_finite:
  assumes "check_profile rnd p L dg Q fy x = Inr r" and "L \<noteq> 0" and "Wy p \<noteq> 0" and "fy \<noteq> 0"
  shows "\<exists>u. Util r = Finite u"
proof -
  have ne: "x \<noteq> []" using assms(1) check_profile_empty by blast
  obtain as where as: "np_linspace rnd 0 L (py_int (L * 10) + 1) = Inr as"
    using check_profile_error[of rnd L _ p dg Q fy x] assms(1)
    by (cases "np_linspace rnd 0 L (py_int (L * 10) + 1)") auto
  show ?thesis
    using assms(1) assms(3,4) unfolding check_profile_at[OF assms(2) as ne] by auto
qed

section \<open>Bounds on the moving-load moment\<close>

lemma spec_point_M_product:
  "L \<noteq> 0 \<Longrightarrow> spec_point_M L Q a x =
     (if x \<le> a then Q * x * (L - a) / L else Q * a * (L - x) / L)"
  by (simp add: spec_point_M_def Let_def field_simps)

lemma product_quarter: "t * (L - t) \<le> L * L / (4::real)"
  using zero_le_square[of "L - 2 * t"] by (simp add: algebra_simps)

lemma spec_point_M_bounds:
  assumes "0 < L" "0 \<le> Q" "0 \<le> a" "a \<le> L" "0 \<le> x" "x \<le> L"
  shows "0 \<le> spec_point_M L Q a x" and "spec_point_M L Q a x \<le> Q * L / 4"
proof -
  have L: "L \<noteq> 0" using assms(1) by simp
  define w where "w = (if x \<le> a then x * (L - a) else a * (L - x))"
  have M: "spec_point_M L Q a x = Q * w / L"
    unfolding spec_point_M_product[OF L] w_def by simp
  have w0: "0 \<le> w" unfolding w_def using assms by simp
  have "w \<le> L * L / 4"
  proof (cases "x \<le> a")
    case True
    have "x * (L - a) \<le> a * (L - a)" using True assms by (intro mult_right_mono) simp_all
    also have "\<dots> \<le> L * L / 4" by (rule product_quarter)
    finally show ?thesis unfolding w_def using True by simp
  next
    case False
    have "a * (L - x) \<le> x * (L - x)" using False assms by (intro mult_right_mono) simp_all
    also have "\<dots> \<le> L * L / 4" by (rule product_quarter)
    finally show ?thesis unfolding w_def using False by simp
  qed
  then have "Q * w \<le> Q * (L * L / 4)" using assms(2) by (rule mult_left_mono)
  then have "Q * w / L \<le> Q * (L * L / 4) / L"
    by (rule divide_right_mono) (use assms(1) in simp)
  also have "\<dots> = Q * L / 4" using L by simp
  finally show "spec_point_M L Q a x \<le> Q * L / 4" unfolding M .
  show "0 \<le> spec_point_M L Q a x" unfolding M using w0 assms(1,2) by simp
qed

lemma spec_sweep_range:
  assumes "0 < L" "a \<in> set (spec_sweep exact_linspace L)"
  shows "0 \<le> a \<and> a \<le> L"
proof (cases "nat \<lfloor>10 * L\<rfloor> = 0")
  case True
  then have "spec_sweep exact_linspace L = [0]" by (simp add: spec_sweep_exact)
  then show ?thesis using assms by simp
next
  case False
  define n where "n = nat \<lfloor>10 * L\<rfloor>"
  have n: "0 < n" using False n_def by simp
  have "spec_sweep exact_linspace L = map (\<lambda>j. real j * L / real n) [0..<Suc n]"
    unfolding spec_sweep_exact n_def[symmetric] using n by simp
  then have "a \<in> (\<lambda>j. real j * L / real n) ` {0..<Suc n}"
    using assms(2) by (simp only: set_map set_upt)
  then obtain j where "j \<in> {0..<Suc n}" and "a = real j * L / real n" by blast
  then have j: "j \<le> n" "a = real j * L / real n" by simp_all
  have "real j * L \<le> real n * L" using j(1) assms(1) by (intro mult_right_mono) simp_all
  then have "a \<le> L" unfolding j(2) using n by (simp add: field_simps)
  moreover have "0 \<le> a" unfolding j(2) using assms(1) by simp
  ultimately show ?thesis by simp
qed

lemma linspace_range:
  assumes "0 \<le> L" "x \<in> set (linspace_samples exact_linspace 0 L (Suc (Suc k)))"
  shows "0 \<le> x \<and> x \<le> L"
proof -
  have "linspace_samples exact_linspace 0 L (Suc (Suc k)) =
        map (\<lambda>i. real i * (L / real (Suc k))) [0..<Suc (Suc k)]"
    unfolding linspace_exact by simp
  then have "x \<in> (\<lambda>i. real i * (L / real (Suc k))) ` {0..<Suc (Suc k)}"
    using assms(2) by (simp only: set_map set_upt)
  then obtain i where "i \<in> {0..<Suc (Suc k)}" and "x = real i * (L / real (Suc k))" by blast
  then have i: "i \<le> Suc k" "x = real i * (L / real (Suc k))" by simp_all
  have "real i * L \<le> real (Suc k) * L" using i(1) assms(1) by (intro mult_right_mono) simp_all
  then have "x \<le> L" unfolding i(2) by (simp add: field_simps)
  moreover have "0 \<le> x" unfolding i(2) using assms(1) by simp
  ultimately show ?thesis by simp
qed

lemma spec_envelope_M_upper:
  assumes "0 < L" "0 \<le> Q" "0 \<le> x" "x \<le> L"
  shows "spec_envelope_M exact_linspace L Q x \<le> Q * L / 4"
proof -
  have "\<bar>spec_point_M L Q a x\<bar> \<le> Q * L / 4" if "a \<in> set (spec_sweep exact_linspace L)" for a
    using spec_point_M_bounds[OF assms(1,2) _ _ assms(3,4), of a] spec_sweep_range[OF assms(1) that]
    by simp
  then show ?thesis
    unfolding spec_envelope_M_def using spec_sweep_nonempty[of exact_linspace L] by (subst Max_le_iff) auto
qed

lemma spec_envelope_M_lower:
  assumes "a \<in> set (spec_sweep rnd L)"
  shows "\<bar>spec_point_M L Q a x\<bar> \<le> spec_envelope_M rnd L Q x"
  unfolding spec_envelope_M_def using assms by (intro Max_ge) auto

lemma spec_point_M_near_middle:
  assumes "0 < L" "0 \<le> Q" "0 \<le> a" "a \<le> L / 2" "0 \<le> x" "x \<le> L / 2"
  shows "Q * min x a / 2 \<le> spec_point_M L Q a x"
proof -
  have L: "L \<noteq> 0" using assms(1) by simp
  show ?thesis
  proof (cases "x \<le> a")
    case True
    have "Q * x * (L / 2) \<le> Q * x * (L - a)"
      using assms by (intro mult_left_mono) simp_all
    then have le: "Q * x * (L / 2) / L \<le> Q * x * (L - a) / L"
      by (rule divide_right_mono) (use assms(1) in simp)
    have "Q * min x a / 2 = Q * x * (L / 2) / L" using L True by simp
    also note le
    also have "Q * x * (L - a) / L = spec_point_M L Q a x"
      unfolding spec_point_M_product[OF L] using True by simp
    finally show ?thesis .
  next
    case False
    have "Q * a * (L / 2) \<le> Q * a * (L - x)"
      using assms by (intro mult_left_mono) simp_all
    then have le: "Q * a * (L / 2) / L \<le> Q * a * (L - x) / L"
      by (rule divide_right_mono) (use assms(1) in simp)
    have "Q * min x a / 2 = Q * a * (L / 2) / L" using L False by simp
    also note le
    also have "Q * a * (L - x) / L = spec_point_M L Q a x"
      unfolding spec_point_M_product[OF L] using False by simp
    finally show ?thesis .
  qed
qed

lemma sweep_near_middle:
  assumes "0 < L"
  shows "\<exists>a \<in> set (spec_sweep exact_linspace L). 0 \<le> a \<and> a \<le> L / 2 \<and> L / 2 - 1 / 10 \<le> a"
proof (cases "nat \<lfloor>10 * L\<rfloor> = 0")
  case True
  then have sw: "spec_sweep exact_linspace L = [0]" by (simp add: spec_sweep_exact)
  have "\<lfloor>10 * L\<rfloor> \<le> 0" using True by simp
  then have "10 * L < 1" by (simp add: floor_le_iff)
  then show ?thesis unfolding sw using assms by simp
next
  case False
  define n where "n = nat \<lfloor>10 * L\<rfloor>"
  define k where "k = n div 2"
  have n: "0 < n" using False n_def by simp
  have sw: "spec_sweep exact_linspace L = map (\<lambda>j. real j * L / real n) [0..<Suc n]"
    unfolding spec_sweep_exact n_def[symmetric] using n by simp
  have "k \<in> {0..<Suc n}" unfolding k_def by simp
  then have mem: "real k * L / real n \<in> set (spec_sweep exact_linspace L)"
    unfolding sw by (simp only: set_map set_upt) (rule imageI)
  have k1: "2 * real k \<le> real n" unfolding k_def
    by (metis of_nat_mult of_nat_numeral of_nat_le_iff mult.commute div_times_less_eq_dividend)
  have "n \<le> 2 * k + 1" unfolding k_def by presburger
  then have "real n \<le> real (2 * k + 1)" by (simp only: of_nat_le_iff)
  then have k2: "real n - 1 \<le> 2 * real k" by simp
  have "real_of_int \<lfloor>10 * L\<rfloor> = real n" unfolding n_def using False by simp
  moreover have "10 * L < real_of_int \<lfloor>10 * L\<rfloor> + 1" by linarith
  ultimately have n1: "10 * L < real n + 1" by simp
  have rn: "1 \<le> real n" using n by simp
  have up: "real k * L / real n \<le> L / 2"
  proof -
    have "2 * real k * L \<le> real n * L" using k1 assms by (intro mult_right_mono) simp_all
    then show ?thesis using n by (simp add: field_simps)
  qed
  have lo: "L / 2 - 1 / 10 \<le> real k * L / real n"
  proof -
    have "(real n - 1) * L \<le> 2 * real k * L" using k2 assms by (intro mult_right_mono) simp_all
    then have "(real n - 1) * L / (2 * real n) \<le> 2 * real k * L / (2 * real n)"
      by (rule divide_right_mono) simp
    moreover have "2 * real k * L / (2 * real n) = real k * L / real n" by simp
    moreover have "(real n - 1) * L / (2 * real n) = L / 2 - L / (2 * real n)"
      using n by (simp add: field_simps)
    ultimately have b: "L / 2 - L / (2 * real n) \<le> real k * L / real n" by simp
    have "10 * L \<le> 2 * real n" using n1 rn by linarith
    then have "L \<le> (1 / 10) * (2 * real n)" by simp
    then have "L / (2 * real n) \<le> 1 / 10"
      using n by (subst pos_divide_le_eq) simp_all
    then show ?thesis using b by linarith
  qed
  have "0 \<le> real k * L / real n" using assms by simp
  then show ?thesis using mem up lo by blast
qed

lemma grid_near_middle:
  "99 * L / 199 \<in> set (linspace_samples exact_linspace 0 L 200)"
proof -
  have "linspace_samples exact_linspace 0 L 200 = map (\<lambda>i. real i * L / 199) [0..<200]"
    unfolding linspace_exact by (simp del: upt_rec_numeral)
  moreover have "(99::nat) \<in> {0..<200}" by simp
  then have "real 99 * L / 199 \<in> (\<lambda>i. real i * L / 199) ` {0..<200}" by (rule imageI)
  ultimately show ?thesis by (simp only: set_map set_upt) simp
qed

section \<open>Runs of the whole module\<close>









section \<open>The load-case evaluators\<close>

text \<open>
  Claim C7.  The uniform-load evaluator returns, at every sample position \<open>x\<close>, the shear
  \<open>q L / 2 - q x\<close> and the moment \<open>(q x / 2) (L - x)\<close>.  This holds for every span, load
  and list of samples, so in particular for \<open>L > 0\<close>, \<open>q \<ge> 0\<close> and samples in \<open>[0, L]\<close>.
\<close>

theorem uniform_load_formulas:
  "calculate_distributed_moment_shear L q xs =
     (map (\<lambda>x. (q * x / 2) * (L - x)) xs, map (\<lambda>x. q * L / 2 - q * x) xs)"
  by (simp add: calculate_distributed_moment_shear_def)

text \<open>
  Claim C8.  For a span other than zero (in particular \<open>L > 0\<close>) the triangular-load
  evaluator uses the reaction \<open>Ra = q_max L / 6\<close> and returns the shear
  \<open>Ra - q_max x\<^sup>2 / (2 L)\<close> and the moment \<open>Ra x - q_max x\<^sup>3 / (6 L)\<close>; the moment at the
  sample \<open>x = L\<close> is zero.
\<close>

theorem triangular_load_formulas:
  assumes "L \<noteq> 0"
  shows "calculate_triangular_moment_shear L q_max xs =
     (map (\<lambda>x. Finite (q_max * L / 6 * x - q_max * x ^ 3 / (6 * L))) xs,
      map (\<lambda>x. Finite (q_max * L / 6 - q_max * x ^ 2 / (2 * L))) xs)
   \<and> fst (calculate_triangular_moment_shear L q_max [L]) = [Finite 0]"
proof -
  have "q_max * L / 6 * L - q_max * L ^ 3 / (6 * L) = 0"
    using assms by (simp add: power3_eq_cube)
  then show ?thesis
    using assms
    by (simp add: triangular_finite spec_triangular_M_def spec_triangular_V_def)
qed

theorem triangular_load_formulas_witness:
  "(2::real) \<noteq> 0 \<and>
   calculate_triangular_moment_shear 2 3 [0, 1, 2] =
     ([Finite 0, Finite (3 / 4), Finite 0], [Finite 1, Finite (1 / 4), Finite (- 2)])
   \<and> fst (calculate_triangular_moment_shear 2 3 [2]) = [Finite 0]"
  using triangular_load_formulas [of 2 3 "[0, 1, 2]"] by simp

section \<open>The moving-load envelope\<close>



text \<open>
  Claim C9.  With a load of zero each of the three evaluators returns arrays of finite
  zeros: the uniform load for every span, the triangular load for every span other than
  zero, the moving-load envelope for every span \<open>L > 0\<close>, on any list of samples.
\<close>

theorem zero_load_zero_forces:
  "calculate_distributed_moment_shear L 0 xs = (map (\<lambda>x. 0) xs, map (\<lambda>x. 0) xs)
   \<and> (L \<noteq> 0 \<longrightarrow> calculate_triangular_moment_shear L 0 xs =
         (map (\<lambda>x. Finite 0) xs, map (\<lambda>x. Finite 0) xs))
   \<and> (0 < L \<longrightarrow> calculate_moving_load_envelope rnd L 0 xs =
         Inr (map (\<lambda>x. Finite 0) xs, map (\<lambda>x. Finite 0) xs))"
proof (intro conjI impI)
  show "calculate_distributed_moment_shear L 0 xs = (map (\<lambda>x. 0) xs, map (\<lambda>x. 0) xs)"
    by (simp add: calculate_distributed_moment_shear_def)
next
  assume "L \<noteq> 0"
  then show "calculate_triangular_moment_shear L 0 xs =
         (map (\<lambda>x. Finite 0) xs, map (\<lambda>x. Finite 0) xs)"
    by (simp add: triangular_finite spec_triangular_M_def spec_triangular_V_def)
next
  assume L: "0 < L"
  have ne: "set (spec_sweep rnd L) \<noteq> {}" using spec_sweep_nonempty by simp
  have pm: "\<bar>spec_point_M L 0 a x\<bar> = 0" for a x by (simp add: spec_point_M_def)
  have pv: "\<bar>spec_point_V L 0 a x\<bar> = 0" for a x by (simp add: spec_point_V_def)
  have M: "spec_envelope_M rnd L 0 x = 0" for x
    unfolding spec_envelope_M_def pm using ne by (simp add: image_constant_conv)
  have V: "spec_envelope_V rnd L 0 x = 0" for x
    unfolding spec_envelope_V_def pv using ne by (simp add: image_constant_conv)
  show "calculate_moving_load_envelope rnd L 0 xs =
         Inr (map (\<lambda>x. Finite 0) xs, map (\<lambda>x. Finite 0) xs)"
    by (simp add: envelope_finite[OF L] M V)
qed

theorem zero_load_zero_forces_witness:
  "calculate_distributed_moment_shear 2 0 [0, 1, 2] = ([0, 0, 0], [0, 0, 0])
   \<and> (2::real) \<noteq> 0
   \<and> calculate_triangular_moment_shear 2 0 [0, 1, 2] =
       ([Finite 0, Finite 0, Finite 0], [Finite 0, Finite 0, Finite 0])
   \<and> (0::real) < 2
   \<and> calculate_moving_load_envelope exact_linspace 2 0 [0, 1, 2] =
       Inr ([Finite 0, Finite 0, Finite 0], [Finite 0, Finite 0, Finite 0])"
  using zero_load_zero_forces [of 2 "[0, 1, 2]" exact_linspace] by simp

text \<open>
  Claim C10.  For \<open>0 < L < 0.1\<close> and \<open>Q \<ge> 0\<close> the sweep grid is the single position
  \<open>a = 0\<close>; on samples \<open>x \<ge> 0\<close> the moment envelope is zero everywhere, and the shear
  envelope is \<open>Q\<close> at the sample \<open>x = 0\<close> and zero at every sample \<open>x > 0\<close>.
\<close>

theorem short_span_envelope:
  assumes "0 < L" "L < 0.1" "0 \<le> Q" "\<forall>x\<in>set xs. 0 \<le> x"
  shows "calculate_moving_load_envelope rnd L Q xs =
     Inr (map (\<lambda>x. Finite 0) xs, map (\<lambda>x. Finite (if x = 0 then Q else 0)) xs)"
proof -
  have "\<lfloor>10 * L\<rfloor> = 0" using assms by (simp add: floor_eq_iff)
  then have sw: "spec_sweep rnd L = [0]" by (simp add: spec_sweep_def)
  have pm: "spec_point_M L Q 0 x = 0" if "0 \<le> x" for x
    using that assms(1) by (simp add: spec_point_M_def)
  have pv: "\<bar>spec_point_V L Q 0 x\<bar> = (if x = 0 then Q else 0)" if "0 \<le> x" for x
    using that assms(1,3) by (simp add: spec_point_V_def)
  have "spec_envelope_M rnd L Q x = \<bar>spec_point_M L Q 0 x\<bar>" for x
    unfolding spec_envelope_M_def sw by simp
  then have M: "spec_envelope_M rnd L Q x = 0" if "0 \<le> x" for x
    using that by (simp add: pm)
  have "spec_envelope_V rnd L Q x = \<bar>spec_point_V L Q 0 x\<bar>" for x
    unfolding spec_envelope_V_def sw by simp
  then have V: "spec_envelope_V rnd L Q x = (if x = 0 then Q else 0)" if "0 \<le> x" for x
    using that by (simp only: pv)
  show ?thesis
    using assms(4) by (simp add: envelope_finite[OF assms(1)] M V)
qed

theorem short_span_envelope_witness:
  "(0::real) < 0.05 \<and> (0.05::real) < 0.1 \<and> (0::real) \<le> 3
   \<and> (0::real) \<le> 0.025
   \<and> calculate_moving_load_envelope exact_linspace 0.05 3 [0, 0.025, 0.05] =
       Inr ([Finite 0, Finite 0, Finite 0], [Finite 3, Finite 0, Finite 0])"
  using short_span_envelope [of "0.05" 3 "[0, 0.025, 0.05]" exact_linspace] by simp

section \<open>The design search\<close>

text \<open>
  Claim C1.  The search goes through the catalog in its order and stops at the first
  section whose utilization is \<open><= 1.0\<close>.  In one direction: if the entries before some
  entry are all evaluated and fail the check, and that entry is evaluated and passes it,
  then the run returns exactly that entry with its evaluation, whatever follows it.  In
  the other direction: whenever a run selects a section, the catalog splits into the
  entries before it, the selected entry and the rest; the result is that entry's
  evaluation, with utilization at most 1; every entry before it has a utilization greater
  than 1; and the entries after it are never looked at (whatever stands there, the run
  ends in the same state).  The catalog is one of sections with a section modulus other
  than zero and the yield strength is not zero, as for \<open>IPE_DATA\<close> and \<open>STEEL_GRADES\<close>.
\<close>

theorem first_fit_selection:
  assumes "\<forall>(n, p) \<in> set catalog. Wy p \<noteq> 0" and "fy \<noteq> 0"
  shows "(\<forall>pre name p post r.
            catalog = pre @ (name, p) # post
          \<and> (\<forall>(n', p') \<in> set pre. \<exists>r'. check_profile rnd p' L delta_g Q fy x = Inr r'
                  \<and> \<not> np_le (Util r') (Finite 1))
          \<and> check_profile rnd p L delta_g Q fy x = Inr r \<and> np_le (Util r) (Finite 1)
          \<longrightarrow> profile_search rnd catalog L delta_g Q fy x
                = Inr \<lparr>best_profile = Some name, results = Some r\<rparr>)
       \<and> (\<forall>s name.
            profile_search rnd catalog L delta_g Q fy x = Inr s \<and> best_profile s = Some name
          \<longrightarrow> (\<exists>pre p post r u.
                 catalog = pre @ (name, p) # post
               \<and> check_profile rnd p L delta_g Q fy x = Inr r \<and> results s = Some r
               \<and> Util r = Finite u \<and> u \<le> 1
               \<and> (\<forall>(n', p') \<in> set pre. \<exists>r' u'.
                      check_profile rnd p' L delta_g Q fy x = Inr r' \<and> Util r' = Finite u'
                    \<and> 1 < u')
               \<and> (\<forall>post'. profile_search rnd (pre @ (name, p) # post') L delta_g Q fy x
                      = Inr s)))"
proof (intro conjI allI impI)
  fix pre name p post r
  assume a: "catalog = pre @ (name, p) # post
          \<and> (\<forall>(n', p') \<in> set pre. \<exists>r'. check_profile rnd p' L delta_g Q fy x = Inr r'
                  \<and> \<not> np_le (Util r') (Finite 1))
          \<and> check_profile rnd p L delta_g Q fy x = Inr r \<and> np_le (Util r) (Finite 1)"
  then have "profile_search rnd (pre @ (name, p) # post) L delta_g Q fy x
                = Inr \<lparr>best_profile = Some name, results = Some r\<rparr>"
    by (intro profile_search_first) simp_all
  then show "profile_search rnd catalog L delta_g Q fy x
                = Inr \<lparr>best_profile = Some name, results = Some r\<rparr>"
    using a by simp
next
  fix s name
  assume run: "profile_search rnd catalog L delta_g Q fy x = Inr s \<and> best_profile s = Some name"
  from profile_search_selected[OF run[THEN conjunct1] run[THEN conjunct2]]
  obtain pre p post r where
    h: "catalog = pre @ (name, p) # post" "check_profile rnd p L delta_g Q fy x = Inr r"
       "np_le (Util r) (Finite 1)" "results s = Some r"
       "\<forall>(n, q) \<in> set pre. \<exists>r'. check_profile rnd q L delta_g Q fy x = Inr r'
                  \<and> \<not> np_le (Util r') (Finite 1)"
    by blast
  have L: "L \<noteq> 0"
  proof
    assume "L = 0"
    then have "Util r = NaN" using h(2) check_profile_zero_span by blast
    then show False using h(3) by simp
  qed
  have Wp: "Wy p \<noteq> 0" using assms(1) h(1) by auto
  from check_profile_Util_finite[OF h(2) L Wp assms(2)] obtain u where u: "Util r = Finite u" ..
  have u1: "u \<le> 1" using h(3) u by simp
  have pre: "\<forall>(n', p') \<in> set pre. \<exists>r' u'.
                check_profile rnd p' L delta_g Q fy x = Inr r' \<and> Util r' = Finite u' \<and> 1 < u'"
  proof (clarify)
    fix n' p' assume m: "(n', p') \<in> set pre"
    then obtain r' where r': "check_profile rnd p' L delta_g Q fy x = Inr r'"
        "\<not> np_le (Util r') (Finite 1)" using h(5) by blast
    have "Wy p' \<noteq> 0" using assms(1) h(1) m by auto
    from check_profile_Util_finite[OF r'(1) L this assms(2)] obtain u' where
      u': "Util r' = Finite u'" ..
    then have "1 < u'" using r'(2) by simp
    then show "\<exists>r' u'. check_profile rnd p' L delta_g Q fy x = Inr r' \<and> Util r' = Finite u'
        \<and> 1 < u'"
      using r'(1) u' by blast
  qed
  have s: "s = \<lparr>best_profile = Some name, results = Some r\<rparr>"
    using run profile_search_first[OF h(5) h(2) h(3), of name post] h(1) by simp
  have post: "\<forall>post'. profile_search rnd (pre @ (name, p) # post') L delta_g Q fy x = Inr s"
    unfolding s using profile_search_first[OF h(5) h(2) h(3)] by blast
  have "catalog = pre @ (name, p) # post
         \<and> check_profile rnd p L delta_g Q fy x = Inr r \<and> results s = Some r
         \<and> Util r = Finite u \<and> u \<le> 1
         \<and> (\<forall>(n', p') \<in> set pre. \<exists>r' u'.
                check_profile rnd p' L delta_g Q fy x = Inr r' \<and> Util r' = Finite u' \<and> 1 < u')
         \<and> (\<forall>post'. profile_search rnd (pre @ (name, p) # post') L delta_g Q fy x = Inr s)"
    using h(1,2,4) u u1 pre post by (intro conjI)
  then show "\<exists>pre p post r u.
                 catalog = pre @ (name, p) # post
               \<and> check_profile rnd p L delta_g Q fy x = Inr r \<and> results s = Some r
               \<and> Util r = Finite u \<and> u \<le> 1
               \<and> (\<forall>(n', p') \<in> set pre. \<exists>r' u'.
                      check_profile rnd p' L delta_g Q fy x = Inr r' \<and> Util r' = Finite u'
                    \<and> 1 < u')
               \<and> (\<forall>post'. profile_search rnd (pre @ (name, p) # post') L delta_g Q fy x
                      = Inr s)"
    by (intro exI)
qed

theorem first_fit_selection_witness:
  "profile_search exact_linspace
     [(''A'', \<lparr>mass = 0, Wy = 1\<rparr>), (''B'', \<lparr>mass = 0, Wy = 2\<rparr>), (''C'', \<lparr>mass = 0, Wy = 1000\<rparr>)]
     1 0 2 235 [0, 1 / 2, 1]
   = Inr \<lparr>best_profile = Some ''C'',
          results = Some \<lparr>M_Ed = Finite (3 / 4), V_Ed = Finite 3, Sigma = Finite (3 / 4),
            Util = Finite (3 / 940), x_res = [0, 1 / 2, 1],
            M_array = [Finite 0, Finite (3 / 4), Finite 0],
            V_array = [Finite 3, Finite (3 / 2), Finite (27 / 10)]\<rparr>\<rparr>
   \<and> (\<exists>r' u'. check_profile exact_linspace \<lparr>mass = 0, Wy = 1\<rparr> 1 0 2 235 [0, 1 / 2, 1] = Inr r'
          \<and> Util r' = Finite u' \<and> 1 < u')
   \<and> (\<exists>r' u'. check_profile exact_linspace \<lparr>mass = 0, Wy = 2\<rparr> 1 0 2 235 [0, 1 / 2, 1] = Inr r'
          \<and> Util r' = Finite u' \<and> 1 < u')"
proof -
  let ?A = "\<lparr>mass = 0 :: real, Wy = 1\<rparr>"
  let ?B = "\<lparr>mass = 0 :: real, Wy = 2\<rparr>"
  let ?C = "\<lparr>mass = 0 :: real, Wy = 1000\<rparr>"
  let ?x = "[0, 1 / 2, 1 :: real]"
  let ?cat = "[(''A'', ?A), (''B'', ?B), (''C'', ?C)]"
  let ?rC = "\<lparr>M_Ed = Finite (3 / 4), V_Ed = Finite 3, Sigma = Finite (3 / 4),
            Util = Finite (3 / 940), x_res = [0, 1 / 2, 1],
            M_array = [Finite 0, Finite (3 / 4), Finite 0],
            V_array = [Finite 3, Finite (3 / 2), Finite (27 / 10)]\<rparr>"
  have a: "map_sum id Util (check_profile exact_linspace ?A 1 0 2 235 ?x) = Inr (Finite (150 / 47))"
    by code_simp
  have b: "map_sum id Util (check_profile exact_linspace ?B 1 0 2 235 ?x) = Inr (Finite (75 / 47))"
    by code_simp
  have c: "check_profile exact_linspace ?C 1 0 2 235 ?x = Inr ?rC"
    by code_simp
  have ha: "\<exists>r. check_profile exact_linspace ?A 1 0 2 235 ?x = Inr r \<and> \<not> np_le (Util r) (Finite 1)"
    using a by (cases "check_profile exact_linspace ?A 1 0 2 235 ?x") auto
  have hb: "\<exists>r. check_profile exact_linspace ?B 1 0 2 235 ?x = Inr r \<and> \<not> np_le (Util r) (Finite 1)"
    using b by (cases "check_profile exact_linspace ?B 1 0 2 235 ?x") auto
  have wf: "\<forall>(n, p) \<in> set ?cat. Wy p \<noteq> 0" by simp
  have fy: "(235::real) \<noteq> 0" by simp
  note t = first_fit_selection[OF wf fy, of exact_linspace 1 0 2 "?x"]
  have pre: "\<forall>(n', p') \<in> set [(''A'', ?A), (''B'', ?B)].
      \<exists>r'. check_profile exact_linspace p' 1 0 2 235 ?x = Inr r' \<and> \<not> np_le (Util r') (Finite 1)"
    using ha hb by simp
  have split: "?cat = [(''A'', ?A), (''B'', ?B)] @ (''C'', ?C) # []" by simp
  have leC: "np_le (Util ?rC) (Finite 1)" by simp
  have run: "profile_search exact_linspace ?cat 1 0 2 235 ?x
             = Inr \<lparr>best_profile = Some ''C'', results = Some ?rC\<rparr>"
    using t[THEN conjunct1, rule_format, of "[(''A'', ?A), (''B'', ?B)]" "''C''" ?C "[]" ?rC]
      split pre c leC by blast
  have sel: "best_profile \<lparr>best_profile = Some ''C'', results = Some ?rC\<rparr> = Some ''C''" by simp
  from t[THEN conjunct2, rule_format, OF conjI[OF run sel]] obtain pre' p' post' where
    d: "?cat = pre' @ (''C'', p') # post'"
    and pp: "\<forall>(n', q) \<in> set pre'. \<exists>r' u'.
                check_profile exact_linspace q 1 0 2 235 ?x = Inr r' \<and> Util r' = Finite u' \<and> 1 < u'"
    by blast
  have "pre' = [(''A'', ?A), (''B'', ?B)]"
    using d by (auto simp: Cons_eq_append_conv)
  then have
    "\<exists>r' u'. check_profile exact_linspace ?A 1 0 2 235 ?x = Inr r' \<and> Util r' = Finite u' \<and> 1 < u'"
    "\<exists>r' u'. check_profile exact_linspace ?B 1 0 2 235 ?x = Inr r' \<and> Util r' = Finite u' \<and> 1 < u'"
    using pp by simp_all
  then show ?thesis using run by (intro conjI)
qed

text \<open>
  Claim C3.  If the catalog is empty, or every entry is evaluated and fails the check
  \<open>utilization <= 1.0\<close> (in particular when every utilization is greater than 1), the run
  ends without an exception, \<open>best_profile\<close> is still \<open>None\<close>, \<open>results\<close> is still empty, and
  the report is "Kein Profil gefunden.".
\<close>

theorem no_candidate_outcome:
  assumes "\<forall>(n, p) \<in> set catalog. \<exists>r. check_profile rnd p L delta_g Q fy x = Inr r
              \<and> \<not> np_le (Util r) (Finite 1)"
  shows "profile_search rnd catalog L delta_g Q fy x = Inr \<lparr>best_profile = None, results = None\<rparr>
       \<and> map_sum id report_of (profile_search rnd catalog L delta_g Q fy x) = Inr Kein_Profil_gefunden"
  using profile_search_none[OF assms] by simp

theorem no_candidate_outcome_witness:
  "map_sum id Util (check_profile exact_linspace \<lparr>mass = 0, Wy = 1\<rparr> 1 0 2 235 [0, 1 / 2, 1])
     = Inr (Finite (150 / 47))
   \<and> map_sum id Util (check_profile exact_linspace \<lparr>mass = 0, Wy = 2\<rparr> 1 0 2 235 [0, 1 / 2, 1])
     = Inr (Finite (75 / 47))
   \<and> profile_search exact_linspace [(''A'', \<lparr>mass = 0, Wy = 1\<rparr>), (''B'', \<lparr>mass = 0, Wy = 2\<rparr>)]
        1 0 2 235 [0, 1 / 2, 1] = Inr \<lparr>best_profile = None, results = None\<rparr>
   \<and> map_sum id report_of
        (profile_search exact_linspace [(''A'', \<lparr>mass = 0, Wy = 1\<rparr>), (''B'', \<lparr>mass = 0, Wy = 2\<rparr>)]
           1 0 2 235 [0, 1 / 2, 1]) = Inr Kein_Profil_gefunden"
proof -
  let ?A = "\<lparr>mass = 0 :: real, Wy = 1\<rparr>"
  let ?B = "\<lparr>mass = 0 :: real, Wy = 2\<rparr>"
  let ?x = "[0, 1 / 2, 1 :: real]"
  have a: "map_sum id Util (check_profile exact_linspace ?A 1 0 2 235 ?x) = Inr (Finite (150 / 47))"
    by code_simp
  have b: "map_sum id Util (check_profile exact_linspace ?B 1 0 2 235 ?x) = Inr (Finite (75 / 47))"
    by code_simp
  have ha: "\<exists>r. check_profile exact_linspace ?A 1 0 2 235 ?x = Inr r \<and> \<not> np_le (Util r) (Finite 1)"
    using a by (cases "check_profile exact_linspace ?A 1 0 2 235 ?x") auto
  have hb: "\<exists>r. check_profile exact_linspace ?B 1 0 2 235 ?x = Inr r \<and> \<not> np_le (Util r) (Finite 1)"
    using b by (cases "check_profile exact_linspace ?B 1 0 2 235 ?x") auto
  have h: "\<forall>(n, p) \<in> set [(''A'', ?A), (''B'', ?B)].
             \<exists>r. check_profile exact_linspace p 1 0 2 235 ?x = Inr r \<and> \<not> np_le (Util r) (Finite 1)"
    using ha hb by simp
  show ?thesis
    using no_candidate_outcome[OF h] a b by blast
qed



section \<open>The largest moment of the envelope\<close>

text \<open>
  Claim C6.  For \<open>Q \<ge> 0\<close> and \<open>L > 0\<close>, on the grid of 200 samples of the program, the
  largest value of the moment envelope is \<open>Q L / 4\<close> up to the discretization (the moment
  is continuous in the load position and in the sample, so the grids are taken without
  rounding here): it never
  exceeds \<open>Q L / 4\<close> and falls short of it by at most \<open>Q max(1/20, L/796)\<close>.  The first
  bound comes from the sweep resolution (the sweep position next to mid-span is less than
  \<open>1/10\<close> away from it; on spans below \<open>0.2\<close> the sweep has no interior position and the
  envelope is zero, with \<open>Q L / 4 < Q / 20\<close>), the second from the sample grid (the sample
  next to mid-span is \<open>L / 398\<close> away from it).
\<close>

theorem moving_load_maximum_moment:
  assumes "0 < L" and "0 \<le> Q"
  shows "\<exists>max_M max_V m.
           calculate_moving_load_envelope exact_linspace L Q
             (linspace_samples exact_linspace 0 L 200) = Inr (max_M, max_V)
         \<and> np_max max_M = Inr (Finite m)
         \<and> m \<le> Q * L / 4
         \<and> Q * L / 4 - m \<le> Q * max (1 / 20) (L / 796)"
proof -
  let ?x = "linspace_samples exact_linspace 0 L 200"
  let ?env = "map (spec_envelope_M exact_linspace L Q) ?x"
  define m where "m = Max (set ?env)"
  have x0: "99 * L / 199 \<in> set ?x" by (rule grid_near_middle)
  then have ne: "?env \<noteq> []" by auto
  have run: "calculate_moving_load_envelope exact_linspace L Q ?x =
               Inr (map Finite ?env, map (\<lambda>x. Finite (spec_envelope_V exact_linspace L Q x)) ?x)"
    unfolding envelope_finite[OF assms(1)] by (simp add: o_def)
  have mx: "np_max (map Finite ?env) = Inr (Finite m)"
    unfolding m_def by (rule np_max_Finite[OF ne])
  have rng: "0 \<le> x \<and> x \<le> L" if "x \<in> set ?x" for x
  proof -
    have "(200::nat) = Suc (Suc 198)" by simp
    then show ?thesis using linspace_range[of L x 198] assms(1) that by simp
  qed
  have up: "m \<le> Q * L / 4"
  proof -
    have "\<forall>e \<in> set ?env. e \<le> Q * L / 4"
      using spec_envelope_M_upper[OF assms] rng by auto
    then show ?thesis unfolding m_def using ne by (subst Max_le_iff) simp_all
  qed
  from sweep_near_middle[OF assms(1)] obtain a where
    a: "a \<in> set (spec_sweep exact_linspace L)" "0 \<le> a" "a \<le> L / 2" "L / 2 - 1 / 10 \<le> a" by blast
  have x0r: "0 \<le> 99 * L / 199" "99 * L / 199 \<le> L / 2" using assms(1) by simp_all
  have "Q * min (99 * L / 199) a / 2 \<le> spec_point_M L Q a (99 * L / 199)"
    by (rule spec_point_M_near_middle[OF assms a(2,3) x0r])
  also have "\<dots> \<le> \<bar>spec_point_M L Q a (99 * L / 199)\<bar>" by simp
  also have "\<dots> \<le> spec_envelope_M exact_linspace L Q (99 * L / 199)"
    by (rule spec_envelope_M_lower[OF a(1)])
  also have "\<dots> \<le> m"
    unfolding m_def using x0 by (intro Max_ge) auto
  finally have low: "Q * min (99 * L / 199) a / 2 \<le> m" .
  have "L / 2 - max (1 / 10) (L / 398) \<le> min (99 * L / 199) a"
    using a(4) by (simp add: min_def max_def field_simps)
  then have "Q * (L / 2 - max (1 / 10) (L / 398)) \<le> Q * min (99 * L / 199) a"
    using assms(2) by (rule mult_left_mono)
  then have "Q * (L / 2 - max (1 / 10) (L / 398)) / 2 \<le> Q * min (99 * L / 199) a / 2"
    by (rule divide_right_mono) simp
  then have "Q * (L / 2 - max (1 / 10) (L / 398)) / 2 \<le> m"
    using low by (rule order_trans)
  moreover have "Q * (L / 2 - max (1 / 10) (L / 398)) / 2 =
                 Q * L / 4 - Q * max (1 / 20) (L / 796)"
    by (simp add: max_def field_simps)
  ultimately have "Q * L / 4 - Q * max (1 / 20) (L / 796) \<le> m"
    by (simp only:)
  then have "calculate_moving_load_envelope exact_linspace L Q ?x =
               Inr (map Finite ?env, map (\<lambda>x. Finite (spec_envelope_V exact_linspace L Q x)) ?x)
         \<and> np_max (map Finite ?env) = Inr (Finite m)
         \<and> m \<le> Q * L / 4
         \<and> Q * L / 4 - m \<le> Q * max (1 / 20) (L / 796)"
    using run mx up by simp
  then show ?thesis by (intro exI)
qed

theorem moving_load_maximum_moment_witness:
  "(0::real) < 1 \<and> (0::real) \<le> 2
   \<and> (\<exists>max_M max_V m.
         calculate_moving_load_envelope exact_linspace 1 2 (linspace_samples exact_linspace 0 1 200) = Inr (max_M, max_V)
       \<and> np_max max_M = Inr (Finite m) \<and> m \<le> 1 / 2 \<and> 1 / 2 - m \<le> 1 / 10)"
  using moving_load_maximum_moment [of 1 2] by simp

section \<open>Inputs outside the intended range\<close>




end
